theory Spec2Isabelle
  imports Main "HOL-Library.Word"
begin

section \<open>The tutorial program: one asynchronous call and one blocking retrieval\<close>

text \<open>
  The source is a single C++ file: the routine \<open>calculate_square_async\<close> and \<open>main\<close>,
  which launches the routine on a new thread with \<open>std::async(std::launch::async, ...)\<close>,
  goes on with its own narration and finally calls \<open>get()\<close> on the \<open>std::future<int>\<close>.

  The embedding is an interleaving semantics of the two threads. Each thread is a
  deterministic step function on a shared configuration; a statement of the source is
  one step. What the model fixes:
  \<^item> \<open>int\<close> is a 32-bit two's-complement word; the product \<open>number * number\<close> wraps
    (ISO C++ leaves signed overflow undefined; the wrap is what the multiply
    instruction of the usual targets gives);
  \<^item> an output statement \<open>std::cout << ... << std::endl\<close> is one event carrying the
    whole line; its inserts are not separate steps, so on the shared console the
    model shows whole lines only, and what is said about the order of lines is said
    of the output of one thread;
  \<^item> \<open>sleep_for\<close> is a step that changes nothing but the control point: durations are
    not modelled, only the order of events;
  \<^item> \<open>std::async\<close> with the \<open>async\<close> policy starts the worker and returns at once;
    creating the thread does not fail;
  \<^item> \<open>get()\<close> can move only when the shared state of the future is ready; it hands
    the value over, or rethrows the stored exception.
\<close>

subsection \<open>Machine integers and their decimal text\<close>

type_synonym int32 = "32 word"

definition digit_char :: "nat \<Rightarrow> char" where
  "digit_char d = ''0123456789'' ! d"

fun show_nat :: "nat \<Rightarrow> string" where
  "show_nat n = (if n < 10 then [digit_char n] else show_nat (n div 10) @ [digit_char (n mod 10)])"

declare show_nat.simps [simp del]

text \<open>What \<open>operator<<\<close> writes for an \<open>int\<close>: decimal digits, with a sign when negative.\<close>

definition show_int :: "int \<Rightarrow> string" where
  "show_int i = (if i < 0 then CHR ''-'' # show_nat (nat (- i)) else show_nat (nat i))"

definition show_int32 :: "int32 \<Rightarrow> string" where
  "show_int32 w = show_int (sint w)"

subsection \<open>Events, control points and configurations\<close>

datatype thread = Main_thread | Worker_thread

datatype stream = Cout | Cerr

text \<open>
  An exception in flight. The handler in \<open>main\<close> is \<open>catch (const std::exception& e)\<close>:
  it takes the exceptions derived from \<open>std::exception\<close>, which carry a description
  (\<open>what()\<close>), and no others.
\<close>

datatype exn = Std_exception string | Other_exception

type_synonym outcome = "exn + int32"

datatype event =
    Output thread stream string
  | Launched int32
  | Completed outcome
  | Retrieved outcome

fun actor :: "event \<Rightarrow> thread" where
  "actor (Output t s l) = t"
| "actor (Launched n) = Main_thread"
| "actor (Completed r) = Worker_thread"
| "actor (Retrieved r) = Main_thread"

text \<open>Control points of \<open>calculate_square_async\<close>, with its locals (source lines 17 to 27).\<close>

datatype worker_pc =
    W_not_launched
  | W_start int32
  | W_sleep int32
  | W_compute int32
  | W_print_finished int32 int32
  | W_return int32
  | W_done

text \<open>Control points of \<open>main\<close> (source lines 29 to 66).\<close>

datatype main_pc =
    M_start
  | M_launch
  | M_other_work
  | M_sleep
  | M_finished_other
  | M_waiting
  | M_get
  | M_print_result int32
  | M_handler string
  | M_program_finished
  | M_return
  | M_exited int
  | M_terminated

text \<open>
  The shared state behind \<open>future_result\<close>: absent before the launch, pending while the
  worker runs, ready once the worker has returned or thrown, consumed by \<open>get()\<close>.
\<close>

datatype future_state = No_state | Pending | Ready outcome | Consumed

record config =
  mpc :: main_pc
  wpc :: worker_pc
  fut :: future_state
  trace :: "event list"

definition emit :: "event \<Rightarrow> config \<Rightarrow> config" where
  "emit e c = c\<lparr>trace := trace c @ [e]\<rparr>"

subsection \<open>The worker routine\<close>

definition worker_start_line :: "int32 \<Rightarrow> string" where
  "worker_start_line number =
     ''Worker thread: Starting calculation for '' @ show_int32 number @ ''...''"

definition worker_finished_line :: "int32 \<Rightarrow> int32 \<Rightarrow> string" where
  "worker_finished_line number result =
     ''Worker thread: Calculation for '' @ show_int32 number @ '' finished. Result: ''
       @ show_int32 result"

text \<open>
  One step of the worker thread. Returning from the routine makes the shared state
  ready with the returned value: that is the completion of the worker.
\<close>

definition worker_step :: "config \<Rightarrow> config option" where
  "worker_step c =
     (case wpc c of
        W_not_launched \<Rightarrow> None
      | W_start number \<Rightarrow>
          Some (emit (Output Worker_thread Cout (worker_start_line number))
                  (c\<lparr>wpc := W_sleep number\<rparr>))
      | W_sleep number \<Rightarrow> Some (c\<lparr>wpc := W_compute number\<rparr>)
      | W_compute number \<Rightarrow> Some (c\<lparr>wpc := W_print_finished number (number * number)\<rparr>)
      | W_print_finished number result \<Rightarrow>
          Some (emit (Output Worker_thread Cout (worker_finished_line number result))
                  (c\<lparr>wpc := W_return result\<rparr>))
      | W_return result \<Rightarrow>
          Some (emit (Completed (Inr result)) (c\<lparr>wpc := W_done, fut := Ready (Inr result)\<rparr>))
      | W_done \<Rightarrow> None)"

subsection \<open>The main thread\<close>

text \<open>
  One step of \<open>main\<close>. The argument of the launch call (the literal 5 in the source) is
  the parameter \<open>arg\<close>, so that properties of every input can be stated. At \<open>M_get\<close>
  the thread cannot move unless the shared state is ready.
\<close>

definition main_step :: "int32 \<Rightarrow> config \<Rightarrow> config option" where
  "main_step arg c =
     (case mpc c of
        M_start \<Rightarrow>
          Some (emit (Output Main_thread Cout ''Main thread: Starting the program.'')
                  (c\<lparr>mpc := M_launch\<rparr>))
      | M_launch \<Rightarrow>
          Some (emit (Launched arg) (c\<lparr>mpc := M_other_work, wpc := W_start arg, fut := Pending\<rparr>))
      | M_other_work \<Rightarrow>
          Some (emit (Output Main_thread Cout
                        ''Main thread: Doing other work while the calculation is in progress...'')
                  (c\<lparr>mpc := M_sleep\<rparr>))
      | M_sleep \<Rightarrow> Some (c\<lparr>mpc := M_finished_other\<rparr>)
      | M_finished_other \<Rightarrow>
          Some (emit (Output Main_thread Cout ''Main thread: Finished doing other work.'')
                  (c\<lparr>mpc := M_waiting\<rparr>))
      | M_waiting \<Rightarrow>
          Some (emit (Output Main_thread Cout
                        ''Main thread: Waiting for the asynchronous calculation to finish and getting the result.'')
                  (c\<lparr>mpc := M_get\<rparr>))
      | M_get \<Rightarrow>
          (case fut c of
             Ready (Inr v) \<Rightarrow>
               Some (emit (Retrieved (Inr v)) (c\<lparr>mpc := M_print_result v, fut := Consumed\<rparr>))
           | Ready (Inl (Std_exception w)) \<Rightarrow>
               Some (emit (Retrieved (Inl (Std_exception w)))
                       (c\<lparr>mpc := M_handler w, fut := Consumed\<rparr>))
           | Ready (Inl Other_exception) \<Rightarrow>
               Some (emit (Retrieved (Inl Other_exception))
                       (c\<lparr>mpc := M_terminated, fut := Consumed\<rparr>))
           | _ \<Rightarrow> None)
      | M_print_result v \<Rightarrow>
          Some (emit (Output Main_thread Cout
                        (''Main thread: Asynchronous calculation result: '' @ show_int32 v))
                  (c\<lparr>mpc := M_program_finished\<rparr>))
      | M_handler w \<Rightarrow>
          Some (emit (Output Main_thread Cerr
                        (''Main thread: An exception occurred during asynchronous execution: '' @ w))
                  (c\<lparr>mpc := M_program_finished\<rparr>))
      | M_program_finished \<Rightarrow>
          Some (emit (Output Main_thread Cout ''Main thread: Program finished.'')
                  (c\<lparr>mpc := M_return\<rparr>))
      | M_return \<Rightarrow> Some (c\<lparr>mpc := M_exited 0\<rparr>)
      | M_exited k \<Rightarrow> None
      | M_terminated \<Rightarrow> None)"

subsection \<open>Executions\<close>

text \<open>
  A schedule names, step by step, the thread the scheduler would like to run. When that
  thread cannot move (not launched, blocked in \<open>get()\<close>, or finished) the other one
  runs; when neither can, the program has stopped and the configuration stays. Every
  interleaving of the two threads is the run of some schedule, and every run is an
  interleaving.
\<close>

fun sched_step :: "int32 \<Rightarrow> thread \<Rightarrow> config \<Rightarrow> config" where
  "sched_step arg Main_thread c =
     (case main_step arg c of
        Some c' \<Rightarrow> c'
      | None \<Rightarrow> (case worker_step c of Some c' \<Rightarrow> c' | None \<Rightarrow> c))"
| "sched_step arg Worker_thread c =
     (case worker_step c of
        Some c' \<Rightarrow> c'
      | None \<Rightarrow> (case main_step arg c of Some c' \<Rightarrow> c' | None \<Rightarrow> c))"

fun exec :: "int32 \<Rightarrow> thread list \<Rightarrow> config \<Rightarrow> config" where
  "exec arg [] c = c"
| "exec arg (t # ts) c = exec arg ts (sched_step arg t c)"

definition init :: config where
  "init = \<lparr>mpc = M_start, wpc = W_not_launched, fut = No_state, trace = []\<rparr>"

text \<open>The program as written launches the routine on 5.\<close>

definition main_arg :: int32 where
  "main_arg = 5"

definition run_main :: "thread list \<Rightarrow> config" where
  "run_main sched = exec main_arg sched init"

text \<open>The step relation of the program, for reference: either thread moves.\<close>

definition step :: "int32 \<Rightarrow> config \<Rightarrow> config \<Rightarrow> bool" where
  "step arg c c' \<longleftrightarrow> main_step arg c = Some c' \<or> worker_step c = Some c'"

subsection \<open>Observations on a configuration\<close>

definition console :: "config \<Rightarrow> string list" where
  "console c = List.map_filter (\<lambda>e. case e of Output t s l \<Rightarrow> Some l | _ \<Rightarrow> None) (trace c)"

definition retrievals :: "config \<Rightarrow> outcome list" where
  "retrievals c = List.map_filter (\<lambda>e. case e of Retrieved r \<Rightarrow> Some r | _ \<Rightarrow> None) (trace c)"

definition completions :: "config \<Rightarrow> outcome list" where
  "completions c = List.map_filter (\<lambda>e. case e of Completed r \<Rightarrow> Some r | _ \<Rightarrow> None) (trace c)"

fun is_completion :: "event \<Rightarrow> bool" where
  "is_completion (Completed r) = True"
| "is_completion e = False"

fun is_retrieval :: "event \<Rightarrow> bool" where
  "is_retrieval (Retrieved r) = True"
| "is_retrieval e = False"

text \<open>
  \<open>first_before P Q xs\<close>: reading \<open>xs\<close> from the left, an element with \<open>P\<close> is met before
  any element with \<open>Q\<close> (or there is no element with \<open>Q\<close> at all).
\<close>

fun first_before :: "('a \<Rightarrow> bool) \<Rightarrow> ('a \<Rightarrow> bool) \<Rightarrow> 'a list \<Rightarrow> bool" where
  "first_before P Q [] = True"
| "first_before P Q (x # xs) = (if P x then True else if Q x then False else first_before P Q xs)"

text \<open>
  The output the source file announces (its closing comment, lines 77 to 84), and the
  schedule that produces it.
\<close>

definition expected_output :: "string list" where
  "expected_output =
     [''Main thread: Starting the program.'',
      ''Main thread: Doing other work while the calculation is in progress...'',
      ''Worker thread: Starting calculation for 5...'',
      ''Main thread: Finished doing other work.'',
      ''Main thread: Waiting for the asynchronous calculation to finish and getting the result.'',
      ''Worker thread: Calculation for 5 finished. Result: 25'',
      ''Main thread: Asynchronous calculation result: 25'',
      ''Main thread: Program finished.'']"

definition expected_schedule :: "thread list" where
  "expected_schedule =
     [Main_thread, Main_thread, Main_thread, Worker_thread,
      Main_thread, Main_thread, Main_thread,
      Worker_thread, Worker_thread, Worker_thread, Worker_thread,
      Main_thread, Main_thread, Main_thread, Main_thread]"

text \<open>A schedule that always prefers the worker: the worker runs as soon as it exists.\<close>

definition worker_first_schedule :: "thread list" where
  "worker_first_schedule =
     [Worker_thread, Worker_thread, Worker_thread, Worker_thread, Worker_thread,
      Worker_thread, Worker_thread, Worker_thread, Worker_thread, Worker_thread,
      Worker_thread, Worker_thread, Worker_thread, Worker_thread, Worker_thread]"

definition console_of :: "thread \<Rightarrow> config \<Rightarrow> string list" where
  "console_of t c =
     List.map_filter (\<lambda>e. case e of Output t' s l \<Rightarrow> if t' = t then Some l else None | _ \<Rightarrow> None)
       (trace c)"

definition cerr_lines :: "config \<Rightarrow> string list" where
  "cerr_lines c =
     List.map_filter (\<lambda>e. case e of Output t Cerr l \<Rightarrow> Some l | _ \<Rightarrow> None) (trace c)"

subsection \<open>What each thread has done at a control point\<close>

text \<open>
  The events of \<open>main\<close> in program order when the retrieval succeeds, and the events of
  the worker; \<open>main_progress\<close> and \<open>worker_progress\<close> count how many of them lie behind
  a control point.
\<close>

definition main_script :: "int32 \<Rightarrow> event list" where
  "main_script arg =
     [Output Main_thread Cout ''Main thread: Starting the program.'',
      Launched arg,
      Output Main_thread Cout
        ''Main thread: Doing other work while the calculation is in progress...'',
      Output Main_thread Cout ''Main thread: Finished doing other work.'',
      Output Main_thread Cout
        ''Main thread: Waiting for the asynchronous calculation to finish and getting the result.'',
      Retrieved (Inr (arg * arg)),
      Output Main_thread Cout
        (''Main thread: Asynchronous calculation result: '' @ show_int32 (arg * arg)),
      Output Main_thread Cout ''Main thread: Program finished.'']"

definition worker_script :: "int32 \<Rightarrow> event list" where
  "worker_script arg =
     [Output Worker_thread Cout (worker_start_line arg),
      Output Worker_thread Cout (worker_finished_line arg (arg * arg)),
      Completed (Inr (arg * arg))]"

fun main_progress :: "main_pc \<Rightarrow> nat" where
  "main_progress M_start = 0"
| "main_progress M_launch = 1"
| "main_progress M_other_work = 2"
| "main_progress M_sleep = 3"
| "main_progress M_finished_other = 3"
| "main_progress M_waiting = 4"
| "main_progress M_get = 5"
| "main_progress (M_print_result v) = 6"
| "main_progress (M_handler w) = 6"
| "main_progress M_program_finished = 7"
| "main_progress M_return = 8"
| "main_progress (M_exited k) = 8"
| "main_progress M_terminated = 6"

fun worker_progress :: "worker_pc \<Rightarrow> nat" where
  "worker_progress W_not_launched = 0"
| "worker_progress (W_start n) = 0"
| "worker_progress (W_sleep n) = 1"
| "worker_progress (W_compute n) = 1"
| "worker_progress (W_print_finished n r) = 1"
| "worker_progress (W_return r) = 2"
| "worker_progress W_done = 3"

definition before_launch :: "main_pc \<Rightarrow> bool" where
  "before_launch pc \<longleftrightarrow> pc = M_start \<or> pc = M_launch"

definition past_get :: "main_pc \<Rightarrow> bool" where
  "past_get pc \<longleftrightarrow> 6 \<le> main_progress pc"

subsection \<open>Invariants of the executions from the initial configuration\<close>

fun main_ok :: "int32 \<Rightarrow> main_pc \<Rightarrow> bool" where
  "main_ok arg (M_print_result v) = (v = arg * arg)"
| "main_ok arg (M_handler w) = False"
| "main_ok arg M_terminated = False"
| "main_ok arg (M_exited k) = (k = 0)"
| "main_ok arg pc = True"

fun worker_ok :: "int32 \<Rightarrow> worker_pc \<Rightarrow> bool" where
  "worker_ok arg (W_start n) = (n = arg)"
| "worker_ok arg (W_sleep n) = (n = arg)"
| "worker_ok arg (W_compute n) = (n = arg)"
| "worker_ok arg (W_print_finished n r) = (n = arg \<and> r = arg * arg)"
| "worker_ok arg (W_return r) = (r = arg * arg)"
| "worker_ok arg pc = True"

definition expected_fut :: "int32 \<Rightarrow> main_pc \<Rightarrow> worker_pc \<Rightarrow> future_state" where
  "expected_fut arg m w =
     (if before_launch m then No_state
      else if past_get m then Consumed
      else if w = W_done then Ready (Inr (arg * arg))
      else Pending)"

definition msg_program_finished :: string where
  "msg_program_finished = ''Main thread: Program finished.''"

definition ctrl_inv :: "int32 \<Rightarrow> config \<Rightarrow> bool" where
  "ctrl_inv arg c \<longleftrightarrow>
     main_ok arg (mpc c) \<and> worker_ok arg (wpc c) \<and>
     fut c = expected_fut arg (mpc c) (wpc c) \<and>
     (wpc c = W_not_launched \<longleftrightarrow> before_launch (mpc c)) \<and>
     (past_get (mpc c) \<longrightarrow> wpc c = W_done)"

definition trace_inv :: "int32 \<Rightarrow> config \<Rightarrow> bool" where
  "trace_inv arg c \<longleftrightarrow>
     filter (\<lambda>e. actor e = Main_thread) (trace c) = take (main_progress (mpc c)) (main_script arg) \<and>
     filter (\<lambda>e. actor e = Worker_thread) (trace c)
       = take (worker_progress (wpc c)) (worker_script arg)"

definition order_inv :: "config \<Rightarrow> bool" where
  "order_inv c \<longleftrightarrow>
     (wpc c = W_done \<longrightarrow> (\<exists>e \<in> set (trace c). is_completion e)) \<and>
     first_before is_completion is_retrieval (trace c)"

definition last_inv :: "config \<Rightarrow> bool" where
  "last_inv c \<longleftrightarrow>
     (mpc c = M_return \<or> mpc c = M_exited 0 \<longrightarrow>
        trace c \<noteq> [] \<and> last (trace c) = Output Main_thread Cout msg_program_finished)"

definition program_inv :: "int32 \<Rightarrow> config \<Rightarrow> bool" where
  "program_inv arg c \<longleftrightarrow> ctrl_inv arg c \<and> trace_inv arg c \<and> order_inv c \<and> last_inv c"

text \<open>The number of steps each thread still has to take.\<close>

fun main_left :: "main_pc \<Rightarrow> nat" where
  "main_left M_start = 10"
| "main_left M_launch = 9"
| "main_left M_other_work = 8"
| "main_left M_sleep = 7"
| "main_left M_finished_other = 6"
| "main_left M_waiting = 5"
| "main_left M_get = 4"
| "main_left (M_print_result v) = 3"
| "main_left (M_handler w) = 3"
| "main_left M_program_finished = 2"
| "main_left M_return = 1"
| "main_left (M_exited k) = 0"
| "main_left M_terminated = 0"

fun worker_left :: "worker_pc \<Rightarrow> nat" where
  "worker_left W_not_launched = 5"
| "worker_left (W_start n) = 5"
| "worker_left (W_sleep n) = 4"
| "worker_left (W_compute n) = 3"
| "worker_left (W_print_finished n r) = 2"
| "worker_left (W_return r) = 1"
| "worker_left W_done = 0"

definition steps_left :: "config \<Rightarrow> nat" where
  "steps_left c = main_left (mpc c) + worker_left (wpc c)"

subsection \<open>A worker that fails\<close>

text \<open>
  The routine of the source never throws. The handler at the retrieval is exercised
  from a configuration in which the worker has ended by throwing an exception with the
  description \<open>d\<close> while \<open>main\<close> stands at the retrieval: the thrown exception is
  stored in the shared state, as \<open>std::async\<close> does for its task. \<open>failure_path\<close>
  lists the control points \<open>main\<close> goes through from there.
\<close>

definition worker_failed :: "string \<Rightarrow> config \<Rightarrow> bool" where
  "worker_failed d c \<longleftrightarrow> mpc c = M_get \<and> wpc c = W_done \<and> fut c = Ready (Inl (Std_exception d))"

definition failure_path :: "string \<Rightarrow> config \<Rightarrow> bool" where
  "failure_path d c \<longleftrightarrow>
     wpc c = W_done \<and>
     (worker_failed d c \<or> mpc c = M_handler d \<or> mpc c = M_program_finished
        \<or> mpc c = M_return \<or> mpc c = M_exited 0)"

text \<open>A configuration for fault injection: the worker threw during its simulated work.\<close>

definition failed_config :: config where
  "failed_config =
     \<lparr>mpc = M_get, wpc = W_done, fut = Ready (Inl (Std_exception ''ComputationError'')),
      trace =
        [Output Main_thread Cout ''Main thread: Starting the program.'',
         Launched 5,
         Output Main_thread Cout
           ''Main thread: Doing other work while the calculation is in progress...'',
         Output Worker_thread Cout ''Worker thread: Starting calculation for 5...'',
         Output Main_thread Cout ''Main thread: Finished doing other work.'',
         Output Main_thread Cout
           ''Main thread: Waiting for the asynchronous calculation to finish and getting the result.'',
         Completed (Inl (Std_exception ''ComputationError''))]\<rparr>"

section \<open>Lemmas\<close>

subsection \<open>Order in a list\<close>

lemma first_before_snoc_other:
  "first_before P Q xs \<Longrightarrow> \<not> Q e \<Longrightarrow> first_before P Q (xs @ [e])"
  by (induction xs) (auto split: if_splits)

lemma first_before_snoc_seen:
  "first_before P Q xs \<Longrightarrow> x \<in> set xs \<Longrightarrow> P x \<Longrightarrow> first_before P Q (xs @ ys)"
  by (induction xs) (auto split: if_splits)

subsection \<open>Each step keeps the invariants\<close>

lemma worker_step_ctrl:
  assumes "ctrl_inv arg c" and "worker_step c = Some c'"
  shows "ctrl_inv arg c'"
  using assms
  by (cases "wpc c")
     (auto simp: ctrl_inv_def worker_step_def emit_def before_launch_def past_get_def
          expected_fut_def)

lemma worker_step_trace:
  assumes "ctrl_inv arg c" and "trace_inv arg c" and "worker_step c = Some c'"
  shows "trace_inv arg c'"
  using assms
  by (cases "wpc c")
     (auto simp: ctrl_inv_def trace_inv_def worker_step_def emit_def worker_script_def)

lemma worker_step_order:
  assumes "order_inv c" and "worker_step c = Some c'"
  shows "order_inv c'"
  using assms
  by (cases "wpc c")
     (auto simp: order_inv_def worker_step_def emit_def first_before_snoc_other)

lemma worker_step_last:
  assumes "ctrl_inv arg c" and "last_inv c" and "worker_step c = Some c'"
  shows "last_inv c'"
  using assms
  by (cases "wpc c")
     (auto simp: ctrl_inv_def last_inv_def worker_step_def emit_def past_get_def)

lemma main_step_ctrl:
  assumes "ctrl_inv arg c" and "main_step arg c = Some c'"
  shows "ctrl_inv arg c'"
  using assms
  by (cases "mpc c")
     (auto simp: ctrl_inv_def main_step_def emit_def before_launch_def past_get_def
          expected_fut_def split: if_splits)

lemma main_step_trace:
  assumes "ctrl_inv arg c" and "trace_inv arg c" and "main_step arg c = Some c'"
  shows "trace_inv arg c'"
  using assms
  by (cases "mpc c")
     (auto simp: ctrl_inv_def trace_inv_def main_step_def emit_def main_script_def
         before_launch_def past_get_def expected_fut_def split: if_splits)

lemma main_step_order:
  assumes "ctrl_inv arg c" and "order_inv c" and "main_step arg c = Some c'"
  shows "order_inv c'"
  using assms
  by (cases "mpc c")
     (auto simp: ctrl_inv_def order_inv_def main_step_def emit_def before_launch_def past_get_def
          expected_fut_def first_before_snoc_other first_before_snoc_seen split: if_splits)

lemma main_step_last:
  assumes "ctrl_inv arg c" and "last_inv c" and "main_step arg c = Some c'"
  shows "last_inv c'"
  using assms
  by (cases "mpc c")
     (auto simp: ctrl_inv_def last_inv_def main_step_def emit_def msg_program_finished_def
          before_launch_def past_get_def expected_fut_def split: if_splits)

lemma init_inv: "program_inv arg init"
  by (simp add: program_inv_def ctrl_inv_def trace_inv_def order_inv_def last_inv_def init_def
      before_launch_def past_get_def expected_fut_def)

lemma sched_step_inv: "program_inv arg c \<Longrightarrow> program_inv arg (sched_step arg t c)"
  unfolding program_inv_def
  by (cases t)
     (auto split: option.splits
        intro: main_step_ctrl main_step_trace main_step_order main_step_last
               worker_step_ctrl worker_step_trace worker_step_order worker_step_last)

lemma exec_inv: "program_inv arg c \<Longrightarrow> program_inv arg (exec arg sched c)"
  by (induction sched arbitrary: c) (simp_all add: sched_step_inv)

lemma run_inv: "program_inv arg (exec arg sched init)"
  by (rule exec_inv [OF init_inv])

subsection \<open>Every step is progress, and fifteen steps end the program\<close>

lemma main_step_left:
  "ctrl_inv arg c \<Longrightarrow> main_step arg c = Some c' \<Longrightarrow> Suc (steps_left c') = steps_left c"
  by (cases "mpc c")
     (auto simp: main_step_def emit_def steps_left_def ctrl_inv_def before_launch_def
        past_get_def expected_fut_def split: if_splits)

lemma worker_step_left:
  "worker_step c = Some c' \<Longrightarrow> Suc (steps_left c') = steps_left c"
  by (cases "wpc c") (auto simp: worker_step_def emit_def steps_left_def)

lemma stuck_left:
  "ctrl_inv arg c \<Longrightarrow> main_step arg c = None \<Longrightarrow> worker_step c = None \<Longrightarrow> steps_left c = 0"
  by (cases "mpc c"; cases "wpc c")
     (auto simp: main_step_def worker_step_def steps_left_def ctrl_inv_def before_launch_def
        past_get_def expected_fut_def split: if_splits)

lemma sched_step_left:
  "ctrl_inv arg c \<Longrightarrow> steps_left (sched_step arg t c) = steps_left c - 1"
  by (cases t)
     (auto split: option.splits dest: main_step_left worker_step_left stuck_left)

lemma exec_left:
  "program_inv arg c \<Longrightarrow> steps_left (exec arg sched c) = steps_left c - length sched"
proof (induction sched arbitrary: c)
  case Nil
  then show ?case by simp
next
  case (Cons t ts)
  have "ctrl_inv arg c" using Cons.prems by (simp add: program_inv_def)
  then have "steps_left (sched_step arg t c) = steps_left c - 1" by (rule sched_step_left)
  moreover have "program_inv arg (sched_step arg t c)" using Cons.prems by (rule sched_step_inv)
  ultimately show ?case using Cons.IH by simp
qed

lemma run_left: "steps_left (exec arg sched init) = 15 - length sched"
  using exec_left [OF init_inv, of arg sched] by (simp add: steps_left_def init_def)

lemma finished_ctrl:
  "ctrl_inv arg c \<Longrightarrow> steps_left c = 0 \<Longrightarrow> mpc c = M_exited 0 \<and> wpc c = W_done \<and> fut c = Consumed"
  by (cases "mpc c"; cases "wpc c")
     (auto simp: steps_left_def ctrl_inv_def before_launch_def past_get_def expected_fut_def)

subsection \<open>What the invariants say about the trace\<close>

lemma first_before_index:
  assumes "first_before P Q xs" and "\<And>x. Q x \<Longrightarrow> \<not> P x"
    and "i < length xs" and "Q (xs ! i)"
  shows "\<exists>j<i. P (xs ! j)"
  using assms(1,3,4)
proof (induction xs arbitrary: i)
  case Nil
  then show ?case by simp
next
  case (Cons x xs)
  show ?case
  proof (cases "P x")
    case True
    with Cons.prems assms(2) have "i \<noteq> 0" by (cases i) auto
    with True show ?thesis by (intro exI [of _ 0]) simp
  next
    case False
    with Cons.prems have nq: "\<not> Q x" and fb: "first_before P Q xs" by (auto split: if_splits)
    with Cons.prems obtain k where k: "i = Suc k" by (cases i) auto
    with Cons.prems have "k < length xs" "Q (xs ! k)" by auto
    with Cons.IH fb obtain j where "j < k" "P (xs ! j)" by blast
    with k show ?thesis by (intro exI [of _ "Suc j"]) simp
  qed
qed

lemma map_filter_filter:
  "(\<And>x. f x \<noteq> None \<Longrightarrow> P x) \<Longrightarrow> List.map_filter f (filter P xs) = List.map_filter f xs"
  by (induction xs) (auto simp: List.map_filter_simps split: option.splits)

lemma completions_worker:
  "completions c = List.map_filter (\<lambda>e. case e of Completed r \<Rightarrow> Some r | _ \<Rightarrow> None)
     (filter (\<lambda>e. actor e = Worker_thread) (trace c))"
  unfolding completions_def
  by (rule map_filter_filter [symmetric]) (auto split: event.splits)

lemma retrievals_main:
  "retrievals c = List.map_filter (\<lambda>e. case e of Retrieved r \<Rightarrow> Some r | _ \<Rightarrow> None)
     (filter (\<lambda>e. actor e = Main_thread) (trace c))"
  unfolding retrievals_def
  by (rule map_filter_filter [symmetric]) (auto split: event.splits)

lemma completions_inv:
  assumes "trace_inv arg c"
  shows "completions c = (if wpc c = W_done then [Inr (arg * arg)] else [])"
  using assms unfolding completions_worker trace_inv_def
  by (cases "wpc c") (simp_all add: worker_script_def List.map_filter_simps)

lemma retrievals_inv:
  assumes "trace_inv arg c"
  shows "retrievals c = (if past_get (mpc c) then [Inr (arg * arg)] else [])"
  using assms unfolding retrievals_main trace_inv_def
  by (cases "mpc c") (simp_all add: main_script_def past_get_def List.map_filter_simps)

lemma run_completions:
  "completions (exec arg sched init) = (if wpc (exec arg sched init) = W_done then [Inr (arg * arg)] else [])"
  using run_inv [of arg sched] by (simp add: program_inv_def completions_inv)

lemma run_retrievals:
  "retrievals (exec arg sched init) = (if past_get (mpc (exec arg sched init)) then [Inr (arg * arg)] else [])"
  using run_inv [of arg sched] by (simp add: program_inv_def retrievals_inv)

lemma run_finished:
  assumes "15 \<le> length sched"
  shows "mpc (exec arg sched init) = M_exited 0 \<and> wpc (exec arg sched init) = W_done
    \<and> fut (exec arg sched init) = Consumed"
proof -
  have "steps_left (exec arg sched init) = 0" using assms by (simp add: run_left)
  moreover have "ctrl_inv arg (exec arg sched init)" using run_inv [of arg sched] by (simp add: program_inv_def)
  ultimately show ?thesis by (rule finished_ctrl [rotated])
qed

lemma main_event_in_script:
  assumes "trace_inv arg c" and "e \<in> set (trace c)" and "actor e = Main_thread"
  shows "e \<in> set (main_script arg)"
proof -
  have "e \<in> set (filter (\<lambda>e. actor e = Main_thread) (trace c))" using assms(2,3) by simp
  moreover have "filter (\<lambda>e. actor e = Main_thread) (trace c)
      = take (main_progress (mpc c)) (main_script arg)"
    using assms(1) by (simp add: trace_inv_def)
  ultimately have "e \<in> set (take (main_progress (mpc c)) (main_script arg))" by simp
  then show ?thesis by (rule in_set_takeD)
qed

lemma worker_event_in_script:
  assumes "trace_inv arg c" and "e \<in> set (trace c)" and "actor e = Worker_thread"
  shows "e \<in> set (worker_script arg)"
proof -
  have "e \<in> set (filter (\<lambda>e. actor e = Worker_thread) (trace c))" using assms(2,3) by simp
  moreover have "filter (\<lambda>e. actor e = Worker_thread) (trace c)
      = take (worker_progress (wpc c)) (worker_script arg)"
    using assms(1) by (simp add: trace_inv_def)
  ultimately have "e \<in> set (take (worker_progress (wpc c)) (worker_script arg))" by simp
  then show ?thesis by (rule in_set_takeD)
qed

lemma retrieved_value:
  assumes "trace_inv arg c" and "Retrieved r \<in> set (trace c)"
  shows "r = Inr (arg * arg)"
  using main_event_in_script [OF assms(1,2)] by (simp add: main_script_def)

lemma completed_value:
  assumes "trace_inv arg c" and "e \<in> set (trace c)" and "is_completion e"
  shows "e = Completed (Inr (arg * arg))"
proof -
  from assms(3) have "actor e = Worker_thread" by (cases e) simp_all
  from worker_event_in_script [OF assms(1,2) this] assms(3) show ?thesis
    by (auto simp: worker_script_def)
qed

lemma retrieval_preceded:
  assumes "program_inv arg c" and "i < length (trace c)" and "trace c ! i = Retrieved r"
  shows "\<exists>j<i. trace c ! j = Completed r"
proof -
  have t: "trace_inv arg c" and o: "first_before is_completion is_retrieval (trace c)"
    using assms(1) by (simp_all add: program_inv_def order_inv_def)
  have "Retrieved r \<in> set (trace c)" using assms(2,3) by (metis nth_mem)
  then have r: "r = Inr (arg * arg)" by (rule retrieved_value [OF t])
  have "\<And>x. is_retrieval x \<Longrightarrow> \<not> is_completion x" by (case_tac x) simp_all
  with o have "\<exists>j<i. is_completion (trace c ! j)"
    using assms(2,3) by (intro first_before_index [where Q = is_retrieval]) simp_all
  then obtain j where j: "j < i" "is_completion (trace c ! j)" by blast
  then have "trace c ! j \<in> set (trace c)" using assms(2) by simp
  from completed_value [OF t this j(2)] r j(1) show ?thesis by auto
qed

subsection \<open>Schedules and the step relation\<close>

lemma sched_step_cases:
  "sched_step arg t c = c \<or> step arg c (sched_step arg t c)"
  by (cases t) (auto simp: step_def split: option.splits)

lemma exec_reachable: "(step arg)\<^sup>*\<^sup>* c (exec arg sched c)"
proof (induction sched arbitrary: c)
  case Nil
  then show ?case by simp
next
  case (Cons t ts)
  from sched_step_cases [of arg t c] Cons.IH [of "sched_step arg t c"]
  show ?case by (auto intro: converse_rtranclp_into_rtranclp)
qed

lemma exec_append: "exec arg (xs @ ys) c = exec arg ys (exec arg xs c)"
  by (induction xs arbitrary: c) simp_all

lemma step_sched: "step arg c c' \<Longrightarrow> \<exists>t. sched_step arg t c = c'"
  unfolding step_def
proof (elim disjE)
  assume "main_step arg c = Some c'"
  then have "sched_step arg Main_thread c = c'" by simp
  then show ?thesis ..
next
  assume "worker_step c = Some c'"
  then have "sched_step arg Worker_thread c = c'" by simp
  then show ?thesis ..
qed

lemma reachable_exec:
  "(step arg)\<^sup>*\<^sup>* c c' \<Longrightarrow> \<exists>sched. c' = exec arg sched c"
proof (induction rule: rtranclp_induct)
  case base
  have "c = exec arg [] c" by simp
  then show ?case ..
next
  case (step y z)
  then obtain sched t where "y = exec arg sched c" "sched_step arg t y = z"
    using step_sched by blast
  then have "z = exec arg (sched @ [t]) c" by (simp add: exec_append)
  then show ?case ..
qed

lemma reachable_iff_exec:
  "(step arg)\<^sup>*\<^sup>* c c' \<longleftrightarrow> (\<exists>sched. c' = exec arg sched c)"
  using exec_reachable reachable_exec by blast

lemma exec_stuck:
  "main_step arg c = None \<Longrightarrow> worker_step c = None \<Longrightarrow> exec arg sched c = c"
  by (induction sched) (simp_all, case_tac a, simp_all)

subsection \<open>Two concrete runs\<close>

lemma expected_schedule_length: "length expected_schedule = 15"
  by (simp add: expected_schedule_def)

lemma worker_first_schedule_length: "length worker_first_schedule = 15"
  by (simp add: worker_first_schedule_def)

lemma expected_run:
  "exec arg expected_schedule init =
     \<lparr>mpc = M_exited 0, wpc = W_done, fut = Consumed,
      trace =
        [Output Main_thread Cout ''Main thread: Starting the program.'',
         Launched arg,
         Output Main_thread Cout
           ''Main thread: Doing other work while the calculation is in progress...'',
         Output Worker_thread Cout (worker_start_line arg),
         Output Main_thread Cout ''Main thread: Finished doing other work.'',
         Output Main_thread Cout
           ''Main thread: Waiting for the asynchronous calculation to finish and getting the result.'',
         Output Worker_thread Cout (worker_finished_line arg (arg * arg)),
         Completed (Inr (arg * arg)),
         Retrieved (Inr (arg * arg)),
         Output Main_thread Cout
           (''Main thread: Asynchronous calculation result: '' @ show_int32 (arg * arg)),
         Output Main_thread Cout ''Main thread: Program finished.'']\<rparr>"
  by (simp add: expected_schedule_def init_def main_step_def worker_step_def emit_def)

lemma worker_first_run:
  "exec arg worker_first_schedule init =
     \<lparr>mpc = M_exited 0, wpc = W_done, fut = Consumed,
      trace =
        [Output Main_thread Cout ''Main thread: Starting the program.'',
         Launched arg,
         Output Worker_thread Cout (worker_start_line arg),
         Output Worker_thread Cout (worker_finished_line arg (arg * arg)),
         Completed (Inr (arg * arg)),
         Output Main_thread Cout
           ''Main thread: Doing other work while the calculation is in progress...'',
         Output Main_thread Cout ''Main thread: Finished doing other work.'',
         Output Main_thread Cout
           ''Main thread: Waiting for the asynchronous calculation to finish and getting the result.'',
         Retrieved (Inr (arg * arg)),
         Output Main_thread Cout
           (''Main thread: Asynchronous calculation result: '' @ show_int32 (arg * arg)),
         Output Main_thread Cout ''Main thread: Program finished.'']\<rparr>"
  by (simp add: worker_first_schedule_def init_def main_step_def worker_step_def emit_def)

lemma show_5: "show_int32 5 = ''5''"
  by (simp add: show_int32_def show_int_def show_nat.simps digit_char_def)

lemma show_25: "show_int32 25 = ''25''"
  by (simp add: show_int32_def show_int_def show_nat.simps digit_char_def)

lemma worker_start_line_5:
  "worker_start_line 5 = ''Worker thread: Starting calculation for 5...''"
  by (simp add: worker_start_line_def show_5)

lemma worker_finished_line_5:
  "worker_finished_line 5 25 = ''Worker thread: Calculation for 5 finished. Result: 25''"
  by (simp add: worker_finished_line_def show_5 show_25)

subsection \<open>The square in 32 bits\<close>

lemma sint_square_small:
  fixes n :: int32
  assumes "0 \<le> sint n" and "sint n \<le> 46340"
  shows "sint (n * n) = sint n * sint n"
proof -
  define x where "x = sint n * sint n"
  have "sint n * sint n \<le> 46340 * 46340"
    using assms by (intro mult_mono) simp_all
  then have up: "x < 2 ^ 31" by (simp add: x_def)
  have "0 \<le> x" using assms(1) by (simp add: x_def)
  moreover have "- (2 ^ 31) \<le> (0 :: int)" by simp
  ultimately have lo: "- (2 ^ 31) \<le> x" by (rule order_trans [rotated])
  have "sint (n * n) = signed_take_bit 31 x"
    by (simp add: sint_word_ariths x_def)
  also have "\<dots> = x"
    using lo up by (simp add: signed_take_bit_int_eq_self)
  finally show ?thesis by (simp add: x_def)
qed

lemma uint_square: "uint (n * n :: int32) = (sint n * sint n) mod 2 ^ 32"
proof -
  have "n * n = word_of_int (sint n * sint n)" by simp
  then have "uint (n * n) = uint (word_of_int (sint n * sint n) :: int32)" by simp
  also have "\<dots> = take_bit 32 (sint n * sint n)"
    by (simp only: uint_word_of_int_eq) simp
  finally show ?thesis by (simp add: take_bit_eq_mod)
qed

subsection \<open>What the console shows\<close>

lemma map_filter_none:
  "(\<And>x. x \<in> set xs \<Longrightarrow> f x = None) \<Longrightarrow> List.map_filter f xs = []"
  by (induction xs) (simp_all add: List.map_filter_simps)

lemma event_in_scripts:
  assumes "trace_inv arg c" and "e \<in> set (trace c)"
  shows "e \<in> set (main_script arg) \<or> e \<in> set (worker_script arg)"
proof (cases "actor e")
  case Main_thread
  with assms show ?thesis by (simp add: main_event_in_script)
next
  case Worker_thread
  with assms show ?thesis by (simp add: worker_event_in_script)
qed

lemma cerr_silent:
  assumes "trace_inv arg c"
  shows "cerr_lines c = []"
  unfolding cerr_lines_def
proof (rule map_filter_none)
  fix e assume "e \<in> set (trace c)"
  from event_in_scripts [OF assms this]
  show "(case e of Output t Cout l \<Rightarrow> None | Output t Cerr l \<Rightarrow> Some l | _ \<Rightarrow> None) = None"
    by (auto simp: main_script_def worker_script_def)
qed

lemma console_of_worker:
  "console_of Worker_thread c =
     List.map_filter (\<lambda>e. case e of Output t' s l \<Rightarrow> if t' = Worker_thread then Some l else None
                          | _ \<Rightarrow> None)
       (filter (\<lambda>e. actor e = Worker_thread) (trace c))"
  unfolding console_of_def
  by (rule map_filter_filter [symmetric]) (auto split: event.splits if_splits)

lemma console_of_worker_inv:
  assumes "trace_inv arg c"
  shows "console_of Worker_thread c =
     take (worker_progress (wpc c)) [worker_start_line arg, worker_finished_line arg (arg * arg)]"
  using assms unfolding console_of_worker trace_inv_def
  by (cases "wpc c") (simp_all add: worker_script_def List.map_filter_simps)

lemma map_filter_member:
  "x \<in> set xs \<Longrightarrow> f x = Some y \<Longrightarrow> y \<in> set (List.map_filter f xs)"
  by (induction xs) (auto simp: List.map_filter_simps split: option.splits)

lemma main_result_line:
  assumes "trace_inv 5 c" and "mpc c = M_exited 0"
  shows "''Main thread: Asynchronous calculation result: 25''
           \<in> set (console_of Main_thread c)"
proof -
  have "filter (\<lambda>e. actor e = Main_thread) (trace c) = main_script 5"
    using assms by (simp add: trace_inv_def main_script_def)
  then have "set (main_script 5) \<subseteq> set (trace c)" by (metis filter_is_subset)
  then have "Output Main_thread Cout ''Main thread: Asynchronous calculation result: 25''
      \<in> set (trace c)"
    by (auto simp: main_script_def show_25)
  then show ?thesis unfolding console_of_def by (rule map_filter_member) simp
qed

subsection \<open>The result slot\<close>

lemma map_filter_append:
  "List.map_filter f (xs @ ys) = List.map_filter f xs @ List.map_filter f ys"
  by (simp add: List.map_filter_def)

lemma get_blocks_while_pending:
  "mpc c = M_get \<Longrightarrow> fut c = Pending \<Longrightarrow> main_step arg c = None"
  by (simp add: main_step_def)

lemma main_never_writes:
  "main_step arg c = Some c' \<Longrightarrow> fut c' = Ready r \<Longrightarrow> fut c = Ready r"
  by (cases "mpc c")
     (auto simp: main_step_def emit_def split: future_state.splits sum.splits exn.splits)

lemma worker_never_reads:
  "worker_step c = Some c' \<Longrightarrow> fut c' = Consumed \<Longrightarrow> fut c = Consumed"
  by (cases "wpc c") (auto simp: worker_step_def emit_def)

subsection \<open>After a failure of the worker\<close>

lemma sched_step_worker_done:
  "wpc c = W_done \<Longrightarrow>
   sched_step arg t c = (case main_step arg c of Some c' \<Rightarrow> c' | None \<Rightarrow> c)"
  by (cases t) (simp_all add: worker_step_def split: option.splits)

lemma failure_path_step:
  "failure_path d c \<Longrightarrow> failure_path d (sched_step arg t c)"
  by (cases "mpc c")
     (auto simp: failure_path_def worker_failed_def sched_step_worker_done main_step_def emit_def)

lemma failure_path_exec:
  "failure_path d c \<Longrightarrow> failure_path d (exec arg sched c)"
  by (induction sched arbitrary: c) (simp_all add: failure_path_step)

lemma failed_four_steps:
  assumes "worker_failed d c"
  shows "exec arg (t1 # t2 # t3 # t4 # rest) c =
     c\<lparr>mpc := M_exited 0, fut := Consumed,
       trace := trace c @
         [Retrieved (Inl (Std_exception d)),
          Output Main_thread Cerr
            (''Main thread: An exception occurred during asynchronous execution: '' @ d),
          Output Main_thread Cout ''Main thread: Program finished.'']\<rparr>"
proof -
  let ?c1 = "c\<lparr>mpc := M_handler d, fut := Consumed,
                trace := trace c @ [Retrieved (Inl (Std_exception d))]\<rparr>"
  let ?c2 = "?c1\<lparr>mpc := M_program_finished,
                trace := trace ?c1 @ [Output Main_thread Cerr
            (''Main thread: An exception occurred during asynchronous execution: '' @ d)]\<rparr>"
  let ?c3 = "?c2\<lparr>mpc := M_return,
                trace := trace ?c2 @ [Output Main_thread Cout ''Main thread: Program finished.'']\<rparr>"
  let ?c4 = "?c3\<lparr>mpc := M_exited 0\<rparr>"
  have w: "wpc c = W_done" using assms by (simp add: worker_failed_def)
  have 1: "sched_step arg t1 c = ?c1"
    using assms by (simp add: sched_step_worker_done worker_failed_def main_step_def emit_def)
  have 2: "sched_step arg t2 ?c1 = ?c2"
    using w by (simp add: sched_step_worker_done main_step_def emit_def)
  have 3: "sched_step arg t3 ?c2 = ?c3"
    using w by (simp add: sched_step_worker_done main_step_def emit_def)
  have 4: "sched_step arg t4 ?c3 = ?c4"
    using w by (simp add: sched_step_worker_done main_step_def emit_def)
  have "exec arg rest ?c4 = ?c4"
    using w by (intro exec_stuck) (simp_all add: main_step_def worker_step_def)
  then have "exec arg (t1 # t2 # t3 # t4 # rest) c = ?c4"
    by (simp only: exec.simps 1 2 3 4)
  then show ?thesis by simp
qed

section \<open>The claims\<close>

text \<open>
  Claim C1. As stated (retrieval yields \<open>n * n\<close> for every non-negative \<open>n\<close>) the
  claim fails once the square leaves the range of \<open>int\<close>: for 46341 the retrieved
  value is negative.
\<close>

theorem retrieval_square_overflow_counterexample:
  "0 \<le> sint (46341 :: int32)
   \<and> retrievals (exec 46341 expected_schedule init) = [Inr (- 2147479015)]
   \<and> sint (- 2147479015 :: int32) \<noteq> 46341 * 46341"
  by (simp add: expected_run retrievals_def List.map_filter_simps)

text \<open>
  Claim C1, amended. For every \<open>arg\<close> from 0 to 46340, the largest input whose square
  is an \<open>int\<close>, the retrieval yields the square: no execution retrieves anything else,
  a run of fifteen steps or more has retrieved exactly the word \<open>arg * arg\<close>, and the
  integer value of that word is the integer product. For input 0 the retrieval
  yields 0.
\<close>

theorem retrieval_yields_square:
  assumes "0 \<le> sint arg" and "sint arg \<le> 46340"
  shows "set (retrievals (exec arg sched init)) \<subseteq> {Inr (arg * arg)}
     \<and> (15 \<le> length sched \<longrightarrow> retrievals (exec arg sched init) = [Inr (arg * arg)])
     \<and> sint (arg * arg) = sint arg * sint arg"
proof (intro conjI impI)
  show "set (retrievals (exec arg sched init)) \<subseteq> {Inr (arg * arg)}"
    by (auto simp: run_retrievals)
  show "retrievals (exec arg sched init) = [Inr (arg * arg)]" if "15 \<le> length sched"
    using run_finished [OF that, of arg] by (simp add: run_retrievals past_get_def)
  show "sint (arg * arg) = sint arg * sint arg"
    using assms by (rule sint_square_small)
qed

theorem retrieval_yields_square_witness:
  "0 \<le> sint (0 :: int32) \<and> sint (0 :: int32) \<le> 46340 \<and> 15 \<le> length expected_schedule
   \<and> retrievals (exec 0 expected_schedule init) = [Inr 0]"
  using retrieval_yields_square [of 0 expected_schedule]
  by (simp add: expected_schedule_length)

text \<open>
  Claim C2. When the worker has ended with a failure derived from \<open>std::exception\<close>
  and \<open>main\<close> stands at the retrieval, \<open>get()\<close> surfaces the failure and no numeric
  result: within four steps, whatever the schedule, the caller has retrieved the
  exception, printed the diagnostic with its description on \<open>std::cerr\<close>, printed
  \<open>Main thread: Program finished.\<close> and returned 0, and the program has stopped
  there. At no moment is the exception raised again (the program never terminates
  abnormally) and at no moment does the caller hold a numeric result.
\<close>

theorem failure_surfaces_and_program_finishes:
  assumes "worker_failed d c"
  shows "(4 \<le> length sched \<longrightarrow>
           mpc (exec arg sched c) = M_exited 0
           \<and> trace (exec arg sched c) = trace c @
               [Retrieved (Inl (Std_exception d)),
                Output Main_thread Cerr
                  (''Main thread: An exception occurred during asynchronous execution: '' @ d),
                Output Main_thread Cout ''Main thread: Program finished.'']
           \<and> main_step arg (exec arg sched c) = None
           \<and> worker_step (exec arg sched c) = None)
     \<and> mpc (exec arg sched c) \<noteq> M_terminated
     \<and> (\<forall>v. mpc (exec arg sched c) \<noteq> M_print_result v)"
proof (intro conjI impI allI)
  have "failure_path d c" using assms by (simp add: failure_path_def worker_failed_def)
  then have p: "failure_path d (exec arg sched c)" by (rule failure_path_exec)
  then show "mpc (exec arg sched c) \<noteq> M_terminated"
    by (auto simp: failure_path_def worker_failed_def)
  show "mpc (exec arg sched c) \<noteq> M_print_result v" for v
    using p by (auto simp: failure_path_def worker_failed_def)
  assume "4 \<le> length sched"
  then obtain t1 t2 t3 t4 rest where s: "sched = t1 # t2 # t3 # t4 # rest"
    by (auto simp: numeral_eq_Suc Suc_le_length_iff)
  have w: "wpc c = W_done" using assms by (simp add: worker_failed_def)
  note r = failed_four_steps [OF assms, of arg t1 t2 t3 t4 rest]
  show "mpc (exec arg sched c) = M_exited 0" unfolding s r by simp
  show "trace (exec arg sched c) = trace c @
               [Retrieved (Inl (Std_exception d)),
                Output Main_thread Cerr
                  (''Main thread: An exception occurred during asynchronous execution: '' @ d),
                Output Main_thread Cout ''Main thread: Program finished.'']"
    unfolding s r by simp
  show "main_step arg (exec arg sched c) = None" unfolding s r by (simp add: main_step_def)
  show "worker_step (exec arg sched c) = None" unfolding s r using w by (simp add: worker_step_def)
qed

theorem failure_surfaces_and_program_finishes_witness:
  "worker_failed ''ComputationError'' failed_config
   \<and> 4 \<le> length [Worker_thread, Main_thread, Worker_thread, Main_thread]
   \<and> mpc (exec 5 [Worker_thread, Main_thread, Worker_thread, Main_thread] failed_config)
       = M_exited 0
   \<and> cerr_lines (exec 5 [Worker_thread, Main_thread, Worker_thread, Main_thread] failed_config)
       = [''Main thread: An exception occurred during asynchronous execution: ComputationError'']
   \<and> last (console (exec 5 [Worker_thread, Main_thread, Worker_thread, Main_thread] failed_config))
       = ''Main thread: Program finished.''"
proof -
  have a: "worker_failed ''ComputationError'' failed_config"
    by (simp add: worker_failed_def failed_config_def)
  have l: "4 \<le> length [Worker_thread, Main_thread, Worker_thread, Main_thread]" by simp
  from failure_surfaces_and_program_finishes
         [OF a, of "[Worker_thread, Main_thread, Worker_thread, Main_thread]" 5] l
  have m: "mpc (exec 5 [Worker_thread, Main_thread, Worker_thread, Main_thread] failed_config)
       = M_exited 0"
    and t: "trace (exec 5 [Worker_thread, Main_thread, Worker_thread, Main_thread] failed_config)
       = trace failed_config @
               [Retrieved (Inl (Std_exception ''ComputationError'')),
                Output Main_thread Cerr
                  (''Main thread: An exception occurred during asynchronous execution: ''
                     @ ''ComputationError''),
                Output Main_thread Cout ''Main thread: Program finished.'']"
    by blast+
  have c: "cerr_lines (exec 5 [Worker_thread, Main_thread, Worker_thread, Main_thread] failed_config)
       = [''Main thread: An exception occurred during asynchronous execution: ComputationError'']"
    unfolding cerr_lines_def t by (simp add: failed_config_def List.map_filter_simps)
  have d: "last (console (exec 5 [Worker_thread, Main_thread, Worker_thread, Main_thread] failed_config))
       = ''Main thread: Program finished.''"
    unfolding console_def t by (simp add: failed_config_def List.map_filter_simps)
  from a l m c d show ?thesis by blast
qed

text \<open>
  Claim C3. In every execution the retrieval never returns before the completion of
  the worker: every \<open>Retrieved\<close> event of the trace has the \<open>Completed\<close> event
  with the same outcome at an earlier position, and whenever \<open>main\<close> is beyond the
  call of \<open>get()\<close> the worker is done.
\<close>

theorem retrieval_never_before_completion:
  "(\<forall>i < length (trace (exec arg sched init)). \<forall>r.
       trace (exec arg sched init) ! i = Retrieved r
         \<longrightarrow> (\<exists>j<i. trace (exec arg sched init) ! j = Completed r))
   \<and> (mpc (exec arg sched init)
         \<in> {M_start, M_launch, M_other_work, M_sleep, M_finished_other, M_waiting, M_get}
       \<or> wpc (exec arg sched init) = W_done)"
proof (intro conjI allI impI)
  fix i r
  assume "i < length (trace (exec arg sched init))"
    and "trace (exec arg sched init) ! i = Retrieved r"
  with run_inv [of arg sched] show "\<exists>j<i. trace (exec arg sched init) ! j = Completed r"
    by (rule retrieval_preceded)
next
  have "ctrl_inv arg (exec arg sched init)"
    using run_inv [of arg sched] by (simp add: program_inv_def)
  then show "mpc (exec arg sched init)
         \<in> {M_start, M_launch, M_other_work, M_sleep, M_finished_other, M_waiting, M_get}
       \<or> wpc (exec arg sched init) = W_done"
    by (cases "mpc (exec arg sched init)") (simp_all add: ctrl_inv_def past_get_def)
qed

theorem retrieval_never_before_completion_witness:
  "8 < length (trace (exec 5 expected_schedule init))
   \<and> trace (exec 5 expected_schedule init) ! 8 = Retrieved (Inr 25)
   \<and> (\<exists>j<8. trace (exec 5 expected_schedule init) ! j = Completed (Inr 25))
   \<and> wpc (exec 5 expected_schedule init) = W_done"
proof -
  have a: "8 < length (trace (exec 5 expected_schedule init))"
    and b: "trace (exec 5 expected_schedule init) ! 8 = Retrieved (Inr 25)"
    and c: "mpc (exec 5 expected_schedule init) = M_exited 0"
    by (simp_all add: expected_run)
  from retrieval_never_before_completion [of 5 expected_schedule] a b c
  show ?thesis by auto
qed

text \<open>
  Claim C4. The launch does not block. Wherever \<open>main\<close> stands at the launch, its step
  is enabled and leaves the worker just started and the handle pending; wherever it
  stands at the statement after the launch, that statement is enabled, whatever the
  state of the worker. And there is an execution whose console shows the narration of
  the two threads interleaved: the output announced in the source file.
\<close>

theorem launch_does_not_block:
  "(\<forall>c. mpc c = M_launch \<longrightarrow>
       (\<exists>c'. main_step arg c = Some c' \<and> mpc c' = M_other_work \<and> wpc c' = W_start arg
          \<and> fut c' = Pending))
   \<and> (\<forall>c. mpc c = M_other_work \<longrightarrow>
       (\<exists>c'. main_step arg c = Some c' \<and> wpc c' = wpc c \<and> fut c' = fut c
          \<and> trace c' = trace c @ [Output Main_thread Cout
               ''Main thread: Doing other work while the calculation is in progress...'']))
   \<and> (\<exists>sched. console (run_main sched) = expected_output)"
proof (intro conjI allI impI)
  fix c
  show "\<exists>c'. main_step arg c = Some c' \<and> mpc c' = M_other_work \<and> wpc c' = W_start arg
          \<and> fut c' = Pending" if "mpc c = M_launch"
    using that by (simp add: main_step_def emit_def)
  show "\<exists>c'. main_step arg c = Some c' \<and> wpc c' = wpc c \<and> fut c' = fut c
          \<and> trace c' = trace c @ [Output Main_thread Cout
               ''Main thread: Doing other work while the calculation is in progress...'']"
    if "mpc c = M_other_work"
    using that by (simp add: main_step_def emit_def)
next
  have "console (run_main expected_schedule) = expected_output"
    by (simp add: run_main_def main_arg_def expected_run console_def List.map_filter_simps
        expected_output_def worker_start_line_5 worker_finished_line_5 show_25)
  then show "\<exists>sched. console (run_main sched) = expected_output" ..
qed

theorem launch_does_not_block_witness:
  "mpc (exec 5 [Main_thread] init) = M_launch
   \<and> mpc (exec 5 [Main_thread, Main_thread] init) = M_other_work
   \<and> wpc (exec 5 [Main_thread, Main_thread] init) = W_start 5
   \<and> fut (exec 5 [Main_thread, Main_thread] init) = Pending
   \<and> main_step 5 (exec 5 [Main_thread, Main_thread] init) \<noteq> None
   \<and> main_step 5 (exec 5 [Main_thread] init) \<noteq> None"
proof -
  have a: "mpc (exec 5 [Main_thread] init) = M_launch"
    and b: "mpc (exec 5 [Main_thread, Main_thread] init) = M_other_work"
    and c: "wpc (exec 5 [Main_thread, Main_thread] init) = W_start 5"
    and d: "fut (exec 5 [Main_thread, Main_thread] init) = Pending"
    by (simp_all add: init_def main_step_def emit_def)
  from launch_does_not_block [of 5] a
  have e: "main_step 5 (exec 5 [Main_thread] init) \<noteq> None" by blast
  from launch_does_not_block [of 5] b
  have f: "main_step 5 (exec 5 [Main_thread, Main_thread] init) \<noteq> None" by blast
  from a b c d e f show ?thesis by blast
qed

text \<open>
  Claim C5. For the program as written (input 5): in the worker's own output the line
  \<open>Starting calculation for 5...\<close> comes before the line \<open>finished. Result: 25\<close>
  in every execution, and a run of fifteen steps or more has retrieved 25, has printed
  exactly these two lines from the worker, and has printed the result line with 25
  from \<open>main\<close>. The order is stated on the output of the worker thread, which is
  whole however the inserts of the two threads fall on the shared console.
\<close>

theorem main_run_retrieves_25:
  "(\<forall>i < length (console_of Worker_thread (run_main sched)).
       console_of Worker_thread (run_main sched) ! i
           = ''Worker thread: Calculation for 5 finished. Result: 25''
         \<longrightarrow> (\<exists>j<i. console_of Worker_thread (run_main sched) ! j
                      = ''Worker thread: Starting calculation for 5...''))
   \<and> (15 \<le> length sched \<longrightarrow>
         retrievals (run_main sched) = [Inr 25]
         \<and> console_of Worker_thread (run_main sched)
             = [''Worker thread: Starting calculation for 5...'',
                ''Worker thread: Calculation for 5 finished. Result: 25'']
         \<and> ''Main thread: Asynchronous calculation result: 25''
               \<in> set (console_of Main_thread (run_main sched)))"
proof (intro conjI allI impI)
  have inv: "trace_inv 5 (run_main sched)"
    using run_inv [of 5 sched] by (simp add: run_main_def main_arg_def program_inv_def)
  have lines: "console_of Worker_thread (run_main sched)
      = take (worker_progress (wpc (run_main sched)))
          [''Worker thread: Starting calculation for 5...'',
           ''Worker thread: Calculation for 5 finished. Result: 25'']"
    using console_of_worker_inv [OF inv]
    by (simp add: worker_start_line_5 worker_finished_line_5)
  {
    fix i
    assume i: "i < length (console_of Worker_thread (run_main sched))"
      and fin: "console_of Worker_thread (run_main sched) ! i
           = ''Worker thread: Calculation for 5 finished. Result: 25''"
    have "i \<noteq> 0"
    proof
      assume "i = 0"
      with i fin lines show False
        by (cases "wpc (run_main sched)") simp_all
    qed
    moreover have "console_of Worker_thread (run_main sched) ! 0
        = ''Worker thread: Starting calculation for 5...''"
      using i lines by (cases "wpc (run_main sched)") simp_all
    ultimately show "\<exists>j<i. console_of Worker_thread (run_main sched) ! j
                      = ''Worker thread: Starting calculation for 5...''"
      by (intro exI [of _ 0]) simp
  }
  assume long: "15 \<le> length sched"
  have fin: "mpc (run_main sched) = M_exited 0" "wpc (run_main sched) = W_done"
    using run_finished [OF long, of 5] by (simp_all add: run_main_def main_arg_def)
  show "retrievals (run_main sched) = [Inr 25]"
    using retrievals_inv [OF inv] fin by (simp add: past_get_def)
  show "console_of Worker_thread (run_main sched)
             = [''Worker thread: Starting calculation for 5...'',
                ''Worker thread: Calculation for 5 finished. Result: 25'']"
    using lines fin by simp
  show "''Main thread: Asynchronous calculation result: 25''
               \<in> set (console_of Main_thread (run_main sched))"
    using inv fin(1) by (rule main_result_line)
qed

theorem main_run_retrieves_25_witness:
  "1 < length (console_of Worker_thread (run_main expected_schedule))
   \<and> console_of Worker_thread (run_main expected_schedule) ! 1
        = ''Worker thread: Calculation for 5 finished. Result: 25''
   \<and> (\<exists>j<1. console_of Worker_thread (run_main expected_schedule) ! j
        = ''Worker thread: Starting calculation for 5...'')
   \<and> 15 \<le> length expected_schedule
   \<and> retrievals (run_main expected_schedule) = [Inr 25]"
proof -
  have c: "console_of Worker_thread (run_main expected_schedule)
      = [''Worker thread: Starting calculation for 5...'',
         ''Worker thread: Calculation for 5 finished. Result: 25'']"
    by (simp add: run_main_def main_arg_def expected_run console_of_def List.map_filter_simps
        worker_start_line_5 worker_finished_line_5)
  have a: "1 < length (console_of Worker_thread (run_main expected_schedule))"
    and b: "console_of Worker_thread (run_main expected_schedule) ! 1
        = ''Worker thread: Calculation for 5 finished. Result: 25''"
    by (simp_all add: c)
  have l: "15 \<le> length expected_schedule" by (simp add: expected_schedule_length)
  from main_run_retrieves_25 [of expected_schedule] a b
  have d: "\<exists>j<1. console_of Worker_thread (run_main expected_schedule) ! j
        = ''Worker thread: Starting calculation for 5...''"
    by blast
  from main_run_retrieves_25 [of expected_schedule] l
  have e: "retrievals (run_main expected_schedule) = [Inr 25]" by blast
  from a b d l e show ?thesis by blast
qed

text \<open>
  Claim C6. In every execution the result slot of the handle is written at most once
  and read at most once, and exactly once each in a run of fifteen steps or more: the
  write is the worker's completion, the read is the caller's retrieval. The slot is
  never made ready by a step of \<open>main\<close> and never consumed by a step of the worker.
  Every retrieval has the completion before it in the trace, and \<open>get()\<close> on a pending
  slot cannot move: it blocks, it does not return a default.
\<close>

theorem slot_written_once_read_once:
  "length (completions (exec arg sched init)) \<le> 1
   \<and> length (retrievals (exec arg sched init)) \<le> 1
   \<and> (15 \<le> length sched \<longrightarrow>
         completions (exec arg sched init) = [Inr (arg * arg)]
         \<and> retrievals (exec arg sched init) = [Inr (arg * arg)])
   \<and> (\<forall>c c' r. main_step arg c = Some c' \<and> fut c' = Ready r \<longrightarrow> fut c = Ready r)
   \<and> (\<forall>c c'. worker_step c = Some c' \<and> fut c' = Consumed \<longrightarrow> fut c = Consumed)
   \<and> (\<forall>i < length (trace (exec arg sched init)).
         is_retrieval (trace (exec arg sched init) ! i)
           \<longrightarrow> (\<exists>j<i. is_completion (trace (exec arg sched init) ! j)))
   \<and> (\<forall>c. mpc c = M_get \<and> fut c = Pending \<longrightarrow> main_step arg c = None)"
proof -
  let ?c = "exec arg sched init"
  have inv: "program_inv arg ?c" by (rule run_inv)
  have 1: "length (completions ?c) \<le> 1" by (simp add: run_completions)
  have 2: "length (retrievals ?c) \<le> 1" by (simp add: run_retrievals)
  have 3: "completions ?c = [Inr (arg * arg)] \<and> retrievals ?c = [Inr (arg * arg)]"
    if "15 \<le> length sched"
    using run_finished [OF that, of arg] by (simp add: run_completions run_retrievals past_get_def)
  have 4: "\<forall>c c' r. main_step arg c = Some c' \<and> fut c' = Ready r \<longrightarrow> fut c = Ready r"
    using main_never_writes by blast
  have 5: "\<forall>c c'. worker_step c = Some c' \<and> fut c' = Consumed \<longrightarrow> fut c = Consumed"
    using worker_never_reads by blast
  have 6: "\<exists>j<i. is_completion (trace ?c ! j)"
    if "i < length (trace ?c)" and "is_retrieval (trace ?c ! i)" for i
  proof -
    have "first_before is_completion is_retrieval (trace ?c)"
      using inv by (simp add: program_inv_def order_inv_def)
    moreover have "\<And>x. is_retrieval x \<Longrightarrow> \<not> is_completion x" by (case_tac x) simp_all
    ultimately show ?thesis using that by (rule first_before_index)
  qed
  have 7: "\<forall>c. mpc c = M_get \<and> fut c = Pending \<longrightarrow> main_step arg c = None"
    using get_blocks_while_pending by blast
  from 1 2 3 4 5 6 7 show ?thesis by blast
qed

theorem slot_written_once_read_once_witness:
  "15 \<le> length expected_schedule
   \<and> completions (exec 7 expected_schedule init) = [Inr 49]
   \<and> retrievals (exec 7 expected_schedule init) = [Inr 49]
   \<and> is_retrieval (trace (exec 7 expected_schedule init) ! 8)
   \<and> (\<exists>j<8. is_completion (trace (exec 7 expected_schedule init) ! j))
   \<and> mpc (exec 7 [Main_thread, Main_thread, Main_thread, Main_thread, Main_thread,
                    Main_thread] init) = M_get
   \<and> fut (exec 7 [Main_thread, Main_thread, Main_thread, Main_thread, Main_thread,
                    Main_thread] init) = Pending
   \<and> main_step 7 (exec 7 [Main_thread, Main_thread, Main_thread, Main_thread, Main_thread,
                    Main_thread] init) = None"
proof -
  note t = slot_written_once_read_once [of 7 expected_schedule]
  have a: "8 < length (trace (exec 7 expected_schedule init))"
    and b: "is_retrieval (trace (exec 7 expected_schedule init) ! 8)"
    by (simp_all add: expected_run)
  have c: "mpc (exec 7 [Main_thread, Main_thread, Main_thread, Main_thread, Main_thread,
                    Main_thread] init) = M_get"
    and d: "fut (exec 7 [Main_thread, Main_thread, Main_thread, Main_thread, Main_thread,
                    Main_thread] init) = Pending"
    by (simp_all add: init_def main_step_def emit_def)
  have l: "15 \<le> length expected_schedule" by (simp add: expected_schedule_length)
  from t l have e: "completions (exec 7 expected_schedule init) = [Inr (7 * 7)]
      \<and> retrievals (exec 7 expected_schedule init) = [Inr (7 * 7)]"
    by blast
  from t a b have f: "\<exists>j<8. is_completion (trace (exec 7 expected_schedule init) ! j)"
    by blast
  from t c d have g: "main_step 7 (exec 7 [Main_thread, Main_thread, Main_thread, Main_thread,
      Main_thread, Main_thread] init) = None"
    by blast
  from l e b f c d g show ?thesis by simp
qed

text \<open>
  Claim C7. The worker routine has no effect besides its two console lines and its
  returned value. A step of the worker leaves the control point of \<open>main\<close> alone,
  only appends events of its own to the trace, and leaves the shared state alone
  except that its return makes it ready with the returned value. In every execution
  the worker's console lines are a beginning of the list of its two lines: one line
  while the worker sleeps, both in a run of fifteen steps or more.
\<close>

theorem worker_frame:
  "(\<forall>c c'. worker_step c = Some c' \<longrightarrow>
       mpc c' = mpc c
       \<and> (\<exists>evs. trace c' = trace c @ evs \<and> (\<forall>e \<in> set evs. actor e = Worker_thread))
       \<and> console_of Main_thread c' = console_of Main_thread c
       \<and> (fut c' = fut c \<or> (\<exists>r. wpc c = W_return r \<and> fut c' = Ready (Inr r))))
   \<and> console_of Worker_thread (exec arg sched init)
        \<in> {[], [worker_start_line arg],
            [worker_start_line arg, worker_finished_line arg (arg * arg)]}
   \<and> (\<forall>n. wpc (exec arg sched init) = W_sleep n \<longrightarrow>
         console_of Worker_thread (exec arg sched init) = [worker_start_line arg])
   \<and> (15 \<le> length sched \<longrightarrow>
         console_of Worker_thread (exec arg sched init)
           = [worker_start_line arg, worker_finished_line arg (arg * arg)])"
proof -
  let ?c = "exec arg sched init"
  have inv: "trace_inv arg ?c" using run_inv [of arg sched] by (simp add: program_inv_def)
  note con = console_of_worker_inv [OF inv]
  have 1: "mpc c' = mpc c
       \<and> (\<exists>evs. trace c' = trace c @ evs \<and> (\<forall>e \<in> set evs. actor e = Worker_thread))
       \<and> console_of Main_thread c' = console_of Main_thread c
       \<and> (fut c' = fut c \<or> (\<exists>r. wpc c = W_return r \<and> fut c' = Ready (Inr r)))"
    if "worker_step c = Some c'" for c c'
    using that
    by (cases "wpc c")
       (auto simp: worker_step_def emit_def console_of_def List.map_filter_simps
          map_filter_append)
  have 2: "console_of Worker_thread ?c
        \<in> {[], [worker_start_line arg],
            [worker_start_line arg, worker_finished_line arg (arg * arg)]}"
    unfolding con by (cases "wpc ?c") simp_all
  have 3: "\<forall>n. wpc ?c = W_sleep n \<longrightarrow> console_of Worker_thread ?c = [worker_start_line arg]"
    unfolding con by simp
  have 4: "console_of Worker_thread ?c
           = [worker_start_line arg, worker_finished_line arg (arg * arg)]"
    if "15 \<le> length sched"
    unfolding con using run_finished [OF that, of arg] by simp
  from 1 2 3 4 show ?thesis by blast
qed

theorem worker_frame_witness:
  "worker_step (exec 5 [Main_thread, Main_thread] init)
     = Some (exec 5 [Main_thread, Main_thread, Worker_thread] init)
   \<and> mpc (exec 5 [Main_thread, Main_thread, Worker_thread] init)
       = mpc (exec 5 [Main_thread, Main_thread] init)
   \<and> fut (exec 5 [Main_thread, Main_thread, Worker_thread] init)
       = fut (exec 5 [Main_thread, Main_thread] init)
   \<and> wpc (exec 5 [Main_thread, Main_thread, Worker_thread] init) = W_sleep 5
   \<and> console_of Worker_thread (exec 5 [Main_thread, Main_thread, Worker_thread] init)
       = [''Worker thread: Starting calculation for 5...'']
   \<and> 15 \<le> length expected_schedule
   \<and> console_of Worker_thread (exec 5 expected_schedule init)
       = [''Worker thread: Starting calculation for 5...'',
          ''Worker thread: Calculation for 5 finished. Result: 25'']"
proof -
  have a: "worker_step (exec 5 [Main_thread, Main_thread] init)
     = Some (exec 5 [Main_thread, Main_thread, Worker_thread] init)"
    and b: "wpc (exec 5 [Main_thread, Main_thread, Worker_thread] init) = W_sleep 5"
    and c: "fut (exec 5 [Main_thread, Main_thread, Worker_thread] init)
       = fut (exec 5 [Main_thread, Main_thread] init)"
    by (simp_all add: init_def main_step_def worker_step_def emit_def)
  from worker_frame [of 5 "[Main_thread, Main_thread, Worker_thread]"]
  have d: "console_of Worker_thread (exec 5 [Main_thread, Main_thread, Worker_thread] init)
       = [worker_start_line 5]"
    using b by blast
  have l: "15 \<le> length expected_schedule" by (simp add: expected_schedule_length)
  from worker_frame [of 5 expected_schedule] l
  have e: "console_of Worker_thread (exec 5 expected_schedule init)
           = [worker_start_line 5, worker_finished_line 5 (5 * 5)]"
    by blast
  from worker_frame [of 5 "[]"] a
  have f: "mpc (exec 5 [Main_thread, Main_thread, Worker_thread] init)
       = mpc (exec 5 [Main_thread, Main_thread] init)"
    by blast
  from a b c d e f l show ?thesis
    by (simp add: worker_start_line_5 worker_finished_line_5)
qed

text \<open>
  Claim C8. In the base scenario (the program as written) no execution enters the
  exception handler or terminates abnormally, nothing is written to \<open>std::cerr\<close>, and
  every run of fifteen steps or more has ended: \<open>main\<close> has returned 0 and the last
  event of the trace is the line \<open>Main thread: Program finished.\<close>
\<close>

theorem base_scenario_completes:
  "(\<forall>w. mpc (run_main sched) \<noteq> M_handler w)
   \<and> mpc (run_main sched) \<noteq> M_terminated
   \<and> cerr_lines (run_main sched) = []
   \<and> (15 \<le> length sched \<longrightarrow>
         mpc (run_main sched) = M_exited 0
         \<and> main_step main_arg (run_main sched) = None
         \<and> worker_step (run_main sched) = None
         \<and> last (trace (run_main sched))
             = Output Main_thread Cout ''Main thread: Program finished.'')"
proof -
  have inv: "program_inv 5 (run_main sched)"
    using run_inv [of 5 sched] by (simp add: run_main_def main_arg_def)
  then have ctrl: "main_ok 5 (mpc (run_main sched))" and tr: "trace_inv 5 (run_main sched)"
    and l: "last_inv (run_main sched)"
    by (simp_all add: program_inv_def ctrl_inv_def)
  have 1: "\<forall>w. mpc (run_main sched) \<noteq> M_handler w" using ctrl by auto
  have 2: "mpc (run_main sched) \<noteq> M_terminated" using ctrl by auto
  have 3: "cerr_lines (run_main sched) = []" using tr by (rule cerr_silent)
  have 4: "mpc (run_main sched) = M_exited 0
         \<and> main_step main_arg (run_main sched) = None
         \<and> worker_step (run_main sched) = None
         \<and> last (trace (run_main sched))
             = Output Main_thread Cout ''Main thread: Program finished.''"
    if "15 \<le> length sched"
  proof -
    have fin: "mpc (run_main sched) = M_exited 0" "wpc (run_main sched) = W_done"
      using run_finished [OF that, of 5] by (simp_all add: run_main_def main_arg_def)
    with l show ?thesis
      by (simp add: last_inv_def msg_program_finished_def main_step_def worker_step_def)
  qed
  from 1 2 3 4 show ?thesis by blast
qed

theorem base_scenario_completes_witness:
  "15 \<le> length worker_first_schedule
   \<and> mpc (run_main worker_first_schedule) = M_exited 0
   \<and> last (trace (run_main worker_first_schedule))
        = Output Main_thread Cout ''Main thread: Program finished.''"
  using base_scenario_completes [of worker_first_schedule]
  by (simp add: worker_first_schedule_length)

text \<open>
  Claim C9. For every machine integer \<open>arg\<close>, negative ones included, the value
  \<open>calculate_square_async\<close> returns is the product \<open>arg * arg\<close> of 32-bit
  arithmetic: in every execution the only value the worker ever completes with is that
  word, a run of fifteen steps or more has completed with it, and read as an integer
  it is the mathematical square reduced modulo \<open>2 ^ 32\<close> (unsigned) or folded into the
  signed range (signed). It neither fails nor saturates.
\<close>

theorem worker_returns_wrapped_product:
  "set (completions (exec arg sched init)) \<subseteq> {Inr (arg * arg)}
   \<and> (15 \<le> length sched \<longrightarrow> completions (exec arg sched init) = [Inr (arg * arg)])
   \<and> uint (arg * arg) = (sint arg * sint arg) mod 2 ^ 32
   \<and> sint (arg * arg) = signed_take_bit 31 (sint arg * sint arg)"
proof (intro conjI impI)
  show "set (completions (exec arg sched init)) \<subseteq> {Inr (arg * arg)}"
    by (auto simp: run_completions)
  show "completions (exec arg sched init) = [Inr (arg * arg)]" if "15 \<le> length sched"
    using run_finished [OF that, of arg] by (simp add: run_completions)
  show "uint (arg * arg) = (sint arg * sint arg) mod 2 ^ 32" by (rule uint_square)
  show "sint (arg * arg) = signed_take_bit 31 (sint arg * sint arg)"
    by (simp add: sint_word_ariths)
qed

theorem worker_returns_wrapped_product_witness:
  "15 \<le> length expected_schedule
   \<and> completions (exec (- 46341) expected_schedule init) = [Inr (- 2147479015)]
   \<and> sint (- 46341 :: int32) = - 46341
   \<and> sint (- 2147479015 :: int32) = signed_take_bit 31 ((- 46341) * (- 46341))"
  using worker_returns_wrapped_product [of "- 46341" expected_schedule]
  by (simp add: expected_schedule_length)

text \<open>
  Claim C10. The value the worker returns is determined by its input: whatever two
  schedules are taken, the outcomes with which the worker completes in the two runs
  are equal.
\<close>

theorem worker_result_deterministic:
  "r1 \<in> set (completions (exec arg s1 init)) \<Longrightarrow> r2 \<in> set (completions (exec arg s2 init))
   \<Longrightarrow> r1 = r2"
  by (simp add: run_completions split: if_splits)

theorem worker_result_deterministic_witness:
  "Inr 25 \<in> set (completions (exec 5 expected_schedule init))
   \<and> Inr 25 \<in> set (completions (exec 5 worker_first_schedule init))
   \<and> trace (exec 5 expected_schedule init) \<noteq> trace (exec 5 worker_first_schedule init)"
proof -
  have a: "Inr 25 \<in> set (completions (exec 5 expected_schedule init))"
    by (simp add: expected_run completions_def List.map_filter_simps)
  have b: "Inr 25 \<in> set (completions (exec 5 worker_first_schedule init))"
    by (simp add: worker_first_run completions_def List.map_filter_simps)
  have c: "trace (exec 5 expected_schedule init) \<noteq> trace (exec 5 worker_first_schedule init)"
    by (simp add: expected_run worker_first_run)
  from worker_result_deterministic [OF a b] a b c show ?thesis by simp
qed

end
